theory Spec2Isabelle
  imports Complex_Main "HOL-Library.Sublist"
begin

section \<open>Strings: the two library calls the chunker makes\<close>

text \<open>
  \<^verbatim>\<open>text.split('. ')\<close>: Python scans the string from the left and cuts at every
  occurrence of the two characters full stop, space that does not overlap the previous cut.
  The pieces between the cuts are returned, empty pieces included, so the result always
  has at least one element (\<^verbatim>\<open>''.split('. ') == ['']\<close>). The first argument is the
  piece read so far.
\<close>

fun split_from :: "string \<Rightarrow> string \<Rightarrow> string list" where
  "split_from acc [] = [acc]"
| "split_from acc [c] = [acc @ [c]]"
| "split_from acc (c # d # cs) =
     (if c = CHR ''.'' \<and> d = CHR '' '' then acc # split_from [] cs
      else split_from (acc @ [c]) (d # cs))"

definition split_sentences :: "string \<Rightarrow> string list" where
  "split_sentences text = split_from [] text"

text \<open>\<^verbatim>\<open>sep.join(xs)\<close>.\<close>

fun join_str :: "string \<Rightarrow> string list \<Rightarrow> string" where
  "join_str sep [] = []"
| "join_str sep [x] = x"
| "join_str sep (x # y # ys) = x @ sep @ join_str sep (y # ys)"

text \<open>Whether the sentence delimiter occurs somewhere in a string.\<close>

fun has_delimiter :: "string \<Rightarrow> bool" where
  "has_delimiter (c # d # cs) = ((c = CHR ''.'' \<and> d = CHR '' '') \<or> has_delimiter (d # cs))"
| "has_delimiter _ = False"

section \<open>The chunker: \<^verbatim>\<open>BertSummarizer._chunk_text\<close>\<close>

text \<open>
  The body of the \<^verbatim>\<open>for\<close> loop and the flush after it. The arguments after the
  sentences still to read are the loop's three variables \<^verbatim>\<open>chunks\<close>,
  \<^verbatim>\<open>current_chunk\<close> and \<^verbatim>\<open>current_length\<close>. \<^verbatim>\<open>max_chunk_size\<close> is a Python
  integer, so it may be zero or negative.
\<close>

fun chunk_loop :: "int \<Rightarrow> string list \<Rightarrow> string list \<Rightarrow> string list \<Rightarrow> nat \<Rightarrow> string list" where
  "chunk_loop max_chunk_size [] chunks current_chunk current_length =
     (if current_chunk \<noteq> [] then chunks @ [join_str ''. '' current_chunk @ ''.'']
      else chunks)"
| "chunk_loop max_chunk_size (sentence # rest) chunks current_chunk current_length =
     (let sentence_length = length sentence in
      if int current_length + int sentence_length > max_chunk_size then
        if current_chunk \<noteq> [] then
          chunk_loop max_chunk_size rest
            (chunks @ [join_str ''. '' current_chunk @ ''.'']) [sentence] sentence_length
        else
          chunk_loop max_chunk_size rest (chunks @ [sentence @ ''.'']) current_chunk
            current_length
      else
        chunk_loop max_chunk_size rest chunks (current_chunk @ [sentence])
          (current_length + sentence_length))"

definition chunk_text :: "string \<Rightarrow> int \<Rightarrow> string list" where
  "chunk_text text max_chunk_size = chunk_loop max_chunk_size (split_sentences text) [] [] 0"

text \<open>
  The same loop, keeping each chunk as the list of its sentences instead of the rendered
  string. It is used only to state what the chunks are made of.
\<close>

fun group_loop :: "int \<Rightarrow> string list \<Rightarrow> string list list \<Rightarrow> string list \<Rightarrow> nat \<Rightarrow> string list list" where
  "group_loop m [] groups cur len = (if cur \<noteq> [] then groups @ [cur] else groups)"
| "group_loop m (s # rest) groups cur len =
     (if int len + int (length s) > m then
        if cur \<noteq> [] then group_loop m rest (groups @ [cur]) [s] (length s)
        else group_loop m rest (groups @ [[s]]) cur len
      else group_loop m rest groups (cur @ [s]) (len + length s))"

definition render_chunk :: "string list \<Rightarrow> string" where
  "render_chunk g = join_str ''. '' g @ ''.''"

text \<open>
  A group of sentences is within the limit when the lengths of its sentences add up to at
  most \<^verbatim>\<open>max_chunk_size\<close>, or when it is one sentence that alone is longer.
\<close>

definition within_limit :: "int \<Rightarrow> string list \<Rightarrow> bool" where
  "within_limit m g \<longleftrightarrow>
     int (sum_list (map length g)) \<le> m \<or> (\<exists>s. g = [s] \<and> int (length s) > m)"

section \<open>Exceptions and the result of a call\<close>

text \<open>
  The exceptions that can reach the \<^verbatim>\<open>except Exception\<close> of \<^verbatim>\<open>summarize\<close>:
  the division by zero of its own arithmetic, the two errors of \<^verbatim>\<open>int()\<close> on a float
  that is infinite (OverflowError) or not a number (ValueError), an index out of range, the
  type error of a torch function that is given a numpy array, and whatever one of the models
  (tokenizer, BERT model, KMeans, summarization pipeline) raises, with its message.
  \<open>exn_str\<close> is \<^verbatim>\<open>str(e)\<close>; the wording of the index message is the library's and
  is not modelled.
\<close>

datatype exn =
  ZeroDivisionError | OverflowError | ValueError | IndexError | TypeError | Raised string

fun exn_str :: "exn \<Rightarrow> string" where
  "exn_str ZeroDivisionError = ''division by zero''"
| "exn_str OverflowError = ''cannot convert float infinity to integer''"
| "exn_str ValueError = ''cannot convert float NaN to integer''"
| "exn_str IndexError = ''index out of range''"
| "exn_str TypeError =
     ''cosine_similarity(): argument 'x1' (position 1) must be Tensor, not numpy.ndarray''"
| "exn_str (Raised msg) = msg"

text \<open>
  A Python float is a finite number, one of the two infinities, or not a number.
\<close>

datatype pyfloat = Finite real | PosInf | NegInf | NaN

text \<open>
  An array object belongs to one of two libraries: KMeans works on numpy arrays and returns
  them, the embeddings are torch tensors.
\<close>

datatype 'a array = NumpyArray 'a | TorchTensor 'a

text \<open>
  The dictionary \<^verbatim>\<open>summarize\<close> returns. Its \<^verbatim>\<open>metadata\<close> entry is either the four
  statistics of a successful call or the single \<^verbatim>\<open>error\<close> entry of a failed one.
\<close>

datatype metadata =
    Stats (original_length: nat) (summary_length: nat) (compression_ratio: real) (num_chunks: nat)
  | Error (error: string)

record summary_result =
  summary :: string
  metadata :: metadata

section \<open>The summarizer object and the library calls it makes\<close>

text \<open>
  \<^verbatim>\<open>BertSummarizer\<close> holds two lengths and three models. The models, the clustering
  of \<^verbatim>\<open>KMeans\<close>, the similarity of two vectors and the float format are not part of the
  repository; they are fields here, so that every statement holds for whatever they compute.
  \<^item> \<open>embed_sentence\<close>: tokenizer and BERT model on one sentence, giving the row of the
    \<^verbatim>\<open>[CLS]\<close> token, or raising.
  \<^item> \<open>kmeans\<close>: \<^verbatim>\<open>KMeans(n_clusters=k, random_state=42)\<close>, \<^verbatim>\<open>fit_predict\<close> on the
    rows; it gives the label of every row and the cluster centres, or raises.
  \<^item> \<open>similarity\<close>: the cosine similarity of a centre and a row, as a number.
  \<^item> \<open>summarizer\<close>: the summarization pipeline called with the text, \<^verbatim>\<open>max_length\<close>
    and \<^verbatim>\<open>min_length\<close>, giving \<^verbatim>\<open>[0]['summary_text']\<close>, or raising.
  \<^item> \<open>fl\<close>: the rounding of an exact arithmetic result to a Python float. A float
    operation is the exact operation followed by \<open>fl\<close>.
  \<^item> \<open>overflows\<close>: whether an exact result is too large in magnitude for a finite
    float, so that the float operation gives an infinity instead.
  Python strings are sequences of code points; here a \<open>char\<close> stands for one code point.
  Logging does not change the result and is left out.
\<close>

record ('e, 'c) bert_summarizer =
  max_length :: int
  min_length :: int
  embed_sentence :: "string \<Rightarrow> exn + 'e"
  kmeans :: "int \<Rightarrow> 'e list \<Rightarrow> exn + nat list \<times> 'c list"
  similarity :: "'c \<Rightarrow> 'e \<Rightarrow> real"
  summarizer :: "string \<Rightarrow> int \<Rightarrow> int \<Rightarrow> exn + string"
  fl :: "real \<Rightarrow> real"
  overflows :: "real \<Rightarrow> bool"

subsection \<open>\<^verbatim>\<open>_get_sentence_embeddings\<close>\<close>

fun embed_loop :: "(string \<Rightarrow> exn + 'e) \<Rightarrow> string list \<Rightarrow> 'e list \<Rightarrow> exn + 'e list" where
  "embed_loop f [] embeddings = Inr embeddings"
| "embed_loop f (sentence # rest) embeddings =
     (case f sentence of
        Inl e \<Rightarrow> Inl e
      | Inr sentence_embedding \<Rightarrow> embed_loop f rest (embeddings @ [sentence_embedding]))"

text \<open>\<^verbatim>\<open>torch.cat\<close> raises on an empty list of tensors.\<close>

definition get_sentence_embeddings ::
  "('e, 'c) bert_summarizer \<Rightarrow> string list \<Rightarrow> exn + 'e list" where
  "get_sentence_embeddings self sentences =
     (case embed_loop (embed_sentence self) sentences [] of
        Inl e \<Rightarrow> Inl e
      | Inr embeddings \<Rightarrow>
          if embeddings = [] then Inl (Raised ''torch.cat(): expected a non-empty list of Tensors'')
          else Inr embeddings)"

subsection \<open>\<^verbatim>\<open>_select_important_sentences\<close>\<close>

text \<open>
  \<^verbatim>\<open>Tensor.argmax()\<close>: the index of the first maximal value; it raises on an empty tensor.
\<close>

fun argmax_loop :: "real list \<Rightarrow> nat \<Rightarrow> real \<Rightarrow> nat \<Rightarrow> nat" where
  "argmax_loop [] i best best_idx = best_idx"
| "argmax_loop (x # xs) i best best_idx =
     (if x > best then argmax_loop xs (Suc i) x i else argmax_loop xs (Suc i) best best_idx)"

definition argmax :: "real list \<Rightarrow> exn + nat" where
  "argmax xs =
     (case xs of
        [] \<Rightarrow> Inl (Raised ''argmax(): expected a non-empty tensor'')
      | x # rest \<Rightarrow> Inr (argmax_loop rest 1 x 0))"

text \<open>
  \<^verbatim>\<open>torch.nn.functional.cosine_similarity(x1, x2)\<close>: both arguments must be torch
  tensors, and the call raises a type error otherwise. On a centre and the rows of a cluster
  it gives the similarity of the centre to every row.
\<close>

definition cosine_similarity ::
  "('e, 'c) bert_summarizer \<Rightarrow> 'c array \<Rightarrow> 'e list array \<Rightarrow> exn + real list" where
  "cosine_similarity self x1 x2 =
     (case x1 of
        NumpyArray c \<Rightarrow> Inl TypeError
      | TorchTensor c \<Rightarrow>
          (case x2 of
             NumpyArray rows \<Rightarrow> Inl TypeError
           | TorchTensor rows \<Rightarrow> Inr (map (similarity self c) rows)))"

text \<open>
  The loop over the cluster indices. Reading \<^verbatim>\<open>clusters[j]\<close> for every sentence raises
  when there are fewer labels than sentences, the mask \<^verbatim>\<open>clusters == i\<close> must have one
  entry per row of \<^verbatim>\<open>embeddings\<close>, and \<^verbatim>\<open>cluster_centers_[i]\<close> and
  \<^verbatim>\<open>cluster_sentences[best_idx]\<close> raise out of range. The centre
  \<^verbatim>\<open>kmeans.cluster_centers_[i].reshape(1, -1)\<close> is a numpy array, and it is passed to
  \<^verbatim>\<open>cosine_similarity\<close> as it is; \<^verbatim>\<open>cluster_embeddings\<close> is a torch tensor.
\<close>

fun select_loop ::
  "('e, 'c) bert_summarizer \<Rightarrow> string list \<Rightarrow> 'e list \<Rightarrow> nat list \<Rightarrow> 'c list \<Rightarrow> nat list \<Rightarrow>
   string list \<Rightarrow> exn + string list" where
  "select_loop self sentences embeddings clusters centers [] important_sentences =
     Inr important_sentences"
| "select_loop self sentences embeddings clusters centers (i # rest) important_sentences =
     (if length clusters < length sentences then Inl IndexError
      else
        let cluster_sentences = [s. (j, s) \<leftarrow> enumerate 0 sentences, clusters ! j = i] in
        if length clusters \<noteq> length embeddings then Inl IndexError
        else
          let cluster_embeddings = [e. (c, e) \<leftarrow> zip clusters embeddings, c = i] in
          if length cluster_sentences > 0 then
            if i \<ge> length centers then Inl IndexError
            else
              case cosine_similarity self (NumpyArray (centers ! i))
                     (TorchTensor cluster_embeddings) of
                Inl e \<Rightarrow> Inl e
              | Inr center_distances \<Rightarrow>
                  (case argmax center_distances of
                     Inl e \<Rightarrow> Inl e
                   | Inr best_idx \<Rightarrow>
                       if best_idx \<ge> length cluster_sentences then Inl IndexError
                       else select_loop self sentences embeddings clusters centers rest
                              (important_sentences @ [cluster_sentences ! best_idx]))
          else select_loop self sentences embeddings clusters centers rest important_sentences)"

definition select_important_sentences ::
  "('e, 'c) bert_summarizer \<Rightarrow> string list \<Rightarrow> 'e list \<Rightarrow> int \<Rightarrow> exn + string list" where
  "select_important_sentences self sentences embeddings num_sentences =
     (if int (length sentences) \<le> num_sentences then Inr sentences
      else
        case kmeans self num_sentences embeddings of
          Inl e \<Rightarrow> Inl e
        | Inr (clusters, centers) \<Rightarrow>
            select_loop self sentences embeddings clusters centers [0..<nat num_sentences] [])"

subsection \<open>\<^verbatim>\<open>summarize\<close>\<close>

text \<open>\<^verbatim>\<open>int(x)\<close> on a finite float: truncation towards zero.\<close>

definition py_int :: "real \<Rightarrow> int" where
  "py_int x = (if x < 0 then \<lceil>x\<rceil> else \<lfloor>x\<rfloor>)"

text \<open>
  Line 169, \<^verbatim>\<open>max(1, int(len(sentences) * compression_ratio))\<close>, when the float
  product is finite.
\<close>

definition num_sentences :: "('e, 'c) bert_summarizer \<Rightarrow> nat \<Rightarrow> real \<Rightarrow> int" where
  "num_sentences self n ratio = max 1 (py_int (fl self (real n * ratio)))"

text \<open>
  Line 169 for every float. The product of the sentence count and a finite ratio is an
  infinity when it overflows; the product with an infinite ratio is infinite, or not a
  number when the count is zero; the product with a ratio that is not a number is not a
  number. \<^verbatim>\<open>int()\<close> raises OverflowError on an infinity and ValueError on a float that
  is not a number.
\<close>

definition num_sentences_or_raise ::
  "('e, 'c) bert_summarizer \<Rightarrow> nat \<Rightarrow> pyfloat \<Rightarrow> exn + int" where
  "num_sentences_or_raise self n ratio =
     (case ratio of
        Finite r \<Rightarrow>
          if overflows self (real n * r) then Inl OverflowError
          else Inr (num_sentences self n r)
      | PosInf \<Rightarrow> if n = 0 then Inl ValueError else Inl OverflowError
      | NegInf \<Rightarrow> if n = 0 then Inl ValueError else Inl OverflowError
      | NaN \<Rightarrow> Inl ValueError)"

text \<open>The body of the loop over the chunks, for one chunk.\<close>

definition summarize_chunk ::
  "('e, 'c) bert_summarizer \<Rightarrow> pyfloat \<Rightarrow> string \<Rightarrow> exn + string" where
  "summarize_chunk self ratio chunk =
     (let sentences = split_sentences chunk in
      case get_sentence_embeddings self sentences of
        Inl e \<Rightarrow> Inl e
      | Inr embeddings \<Rightarrow>
          (case num_sentences_or_raise self (length sentences) ratio of
             Inl e \<Rightarrow> Inl e
           | Inr k \<Rightarrow>
               (case select_important_sentences self sentences embeddings k of
                  Inl e \<Rightarrow> Inl e
                | Inr important_sentences \<Rightarrow>
                    let extractive_summary = join_str '' '' important_sentences in
                    summarizer self extractive_summary (max_length self) (min_length self))))"

fun summarize_loop ::
  "('e, 'c) bert_summarizer \<Rightarrow> pyfloat \<Rightarrow> string list \<Rightarrow> string list \<Rightarrow> exn + string list" where
  "summarize_loop self ratio [] all_summaries = Inr all_summaries"
| "summarize_loop self ratio (chunk # rest) all_summaries =
     (case summarize_chunk self ratio chunk of
        Inl e \<Rightarrow> Inl e
      | Inr abstractive_summary \<Rightarrow>
          summarize_loop self ratio rest (all_summaries @ [abstractive_summary]))"

text \<open>
  The \<^verbatim>\<open>try\<close> block. \<^verbatim>\<open>_chunk_text\<close> is called with its default
  \<^verbatim>\<open>max_chunk_size = 512\<close>. The quotient of the two lengths raises when the text is
  empty.
\<close>

definition summarize_try ::
  "('e, 'c) bert_summarizer \<Rightarrow> string \<Rightarrow> pyfloat \<Rightarrow> exn + summary_result" where
  "summarize_try self text ratio =
     (let chunks = chunk_text text 512 in
      case summarize_loop self ratio chunks [] of
        Inl e \<Rightarrow> Inl e
      | Inr all_summaries \<Rightarrow>
          let final_summary = join_str '' '' all_summaries in
          if length text = 0 then Inl ZeroDivisionError
          else Inr \<lparr>summary = final_summary,
                    metadata = Stats (length text) (length final_summary)
                      (fl self (real (length final_summary) / real (length text)))
                      (length chunks)\<rparr>)"

text \<open>The \<^verbatim>\<open>except\<close> clause turns every exception into the failure dictionary.\<close>

definition summarize ::
  "('e, 'c) bert_summarizer \<Rightarrow> string \<Rightarrow> pyfloat \<Rightarrow> summary_result" where
  "summarize self text ratio =
     (case summarize_try self text ratio of
        Inr result \<Rightarrow> result
      | Inl e \<Rightarrow> \<lparr>summary = [], metadata = Error (exn_str e)\<rparr>)"

text \<open>
  A summarizer whose models do nothing interesting, for running the code on concrete
  inputs: a sentence is embedded as its length, every row is put in cluster 0, all
  similarities are equal, the pipeline returns its input, and arithmetic is exact and never
  overflows.
\<close>

definition echo_summarizer :: "(nat, nat) bert_summarizer" where
  "echo_summarizer =
     \<lparr>max_length = 130, min_length = 30,
      embed_sentence = (\<lambda>s. Inr (length s)),
      kmeans = (\<lambda>k rows. Inr (map (\<lambda>r. 0) rows, replicate (nat k) 0)),
      similarity = (\<lambda>c e. 0),
      summarizer = (\<lambda>t mx mn. Inr t),
      fl = (\<lambda>x. x),
      overflows = (\<lambda>x. False)\<rparr>"

text \<open>
  The same summarizer, except that embedding a sentence that starts with the letter b
  raises; and a text of two sentences of 300 letters each, which the chunker cuts into two
  chunks.
\<close>

definition failing_summarizer :: "(nat, nat) bert_summarizer" where
  "failing_summarizer =
     echo_summarizer\<lparr>embed_sentence :=
       (\<lambda>s. if s \<noteq> [] \<and> hd s = CHR ''b'' then Inl (Raised ''embedding failed'')
            else Inr (length s))\<rparr>"

definition two_chunk_text :: string where
  "two_chunk_text = replicate 300 CHR ''a'' @ ''. '' @ replicate 300 CHR ''b''"

section \<open>Auxiliary notions for the selector\<close>

text \<open>The indices of the sentences assigned to a cluster, in increasing order.\<close>

definition members :: "nat list \<Rightarrow> nat \<Rightarrow> nat list" where
  "members clusters i = filter (\<lambda>j. clusters ! j = i) [0..<length clusters]"

text \<open>
  A summarizer for running the selector: the label of a row is the row modulo 10 and the
  similarity of a row to any centre is the row itself.
\<close>

definition modular_summarizer :: "(nat, nat) bert_summarizer" where
  "modular_summarizer =
     echo_summarizer\<lparr>kmeans := (\<lambda>k rows. Inr (map (\<lambda>r. r mod 10) rows, replicate (nat k) 0)),
                      similarity := (\<lambda>c e. real e)\<rparr>"

section \<open>Splitting and joining\<close>

lemma split_from_nonempty: "split_from acc s \<noteq> []"
  by (induction acc s rule: split_from.induct) auto

lemma join_split_from: "join_str ''. '' (split_from acc s) = acc @ s"
proof (induction acc s rule: split_from.induct)
  case (3 acc c d cs)
  show ?case
  proof (cases "c = CHR ''.'' \<and> d = CHR '' ''")
    case True
    obtain x xs where sp: "split_from [] cs = x # xs"
      using split_from_nonempty [of "[]" cs] by (cases "split_from [] cs") auto
    with 3 True show ?thesis by simp
  next
    case False
    then have "split_from acc (c # d # cs) = split_from (acc @ [c]) (d # cs)"
      by auto
    moreover have "join_str ''. '' (split_from (acc @ [c]) (d # cs)) = (acc @ [c]) @ d # cs"
      using 3(2) False by blast
    ultimately show ?thesis by simp
  qed
qed simp_all

lemma join_split_sentences: "join_str ''. '' (split_sentences text) = text"
  by (simp add: split_sentences_def join_split_from)

lemma split_from_no_delimiter: "\<not> has_delimiter s \<Longrightarrow> split_from acc s = [acc @ s]"
  by (induction acc s rule: split_from.induct) auto

lemma join_append:
  "xs \<noteq> [] \<Longrightarrow> ys \<noteq> [] \<Longrightarrow> join_str sep (xs @ ys) = join_str sep xs @ sep @ join_str sep ys"
proof (induction sep xs rule: join_str.induct)
  case (2 sep x)
  then show ?case by (cases ys) simp_all
qed simp_all

lemma join_concat:
  "\<forall>g \<in> set gs. g \<noteq> [] \<Longrightarrow> join_str sep (map (join_str sep) gs) = join_str sep (concat gs)"
proof (induction gs)
  case (Cons g gs)
  show ?case
  proof (cases gs)
    case Nil
    then show ?thesis by simp
  next
    case (Cons h hs)
    have ne: "g \<noteq> []" "concat gs \<noteq> []" "map (join_str sep) gs \<noteq> []"
      using Cons.prems Cons by auto
    have "join_str sep (map (join_str sep) (g # gs))
            = join_str sep g @ sep @ join_str sep (map (join_str sep) gs)"
      using Cons by simp
    also have "\<dots> = join_str sep g @ sep @ join_str sep (concat gs)"
      using Cons.IH Cons.prems by simp
    also have "\<dots> = join_str sep (g @ concat gs)"
      using join_append [OF ne(1) ne(2)] by simp
    finally show ?thesis by simp
  qed
qed simp

lemma join_sublist:
  "g \<noteq> [] \<Longrightarrow> \<exists>p q. join_str sep (a @ g @ b) = p @ join_str sep g @ q"
proof -
  assume g: "g \<noteq> []"
  have right: "\<exists>q. join_str sep (g @ b) = join_str sep g @ q"
  proof (cases b)
    case Nil
    then show ?thesis by simp
  next
    case (Cons y ys)
    then show ?thesis using join_append [OF g, of b sep] by simp
  qed
  show ?thesis
  proof (cases a)
    case Nil
    with right show ?thesis by (metis append_Nil)
  next
    case (Cons x xs)
    then have "join_str sep (a @ g @ b) = join_str sep a @ sep @ join_str sep (g @ b)"
      using join_append [of a "g @ b" sep] g by simp
    with right show ?thesis by (metis append.assoc)
  qed
qed

section \<open>What the chunks are made of\<close>

lemma chunk_loop_groups:
  "chunk_loop m ss (map render_chunk gs) cur len = map render_chunk (group_loop m ss gs cur len)"
proof (induction ss arbitrary: gs cur len)
  case Nil
  show ?case by (simp add: render_chunk_def)
next
  case (Cons s ss)
  have flush: "map render_chunk gs @ [join_str ''. '' cur @ ''.''] = map render_chunk (gs @ [cur])"
    by (simp add: render_chunk_def)
  have alone: "map render_chunk gs @ [s @ ''.''] = map render_chunk (gs @ [[s]])"
    by (simp add: render_chunk_def)
  show ?case
  proof (cases "int len + int (length s) > m")
    case over: True
    show ?thesis
    proof (cases "cur = []")
      case True
      with over show ?thesis
        using Cons.IH [of "gs @ [[s]]" cur len] by (simp add: alone del: map_append)
    next
      case False
      with over show ?thesis
        using Cons.IH [of "gs @ [cur]" "[s]" "length s"] by (simp add: flush del: map_append)
    qed
  next
    case False
    then show ?thesis using Cons.IH [of gs "cur @ [s]" "len + length s"] by simp
  qed
qed

lemma chunk_text_groups:
  "chunk_text text m = map render_chunk (group_loop m (split_sentences text) [] [] 0)"
  using chunk_loop_groups [of m "split_sentences text" "[]" "[]" 0]
  by (simp add: chunk_text_def)

lemma group_loop_concat: "concat (group_loop m ss gs cur len) = concat gs @ cur @ ss"
  by (induction ss arbitrary: gs cur len) auto

lemma group_loop_nonempty:
  "[] \<notin> set gs \<Longrightarrow> [] \<notin> set (group_loop m ss gs cur len)"
proof (induction ss arbitrary: gs cur len)
  case Nil
  then show ?case by simp
next
  case (Cons s ss)
  have "[] \<notin> set (gs @ [[s]])" using Cons.prems by simp
  then have a: "[] \<notin> set (group_loop m ss (gs @ [[s]]) cur len)" by (rule Cons.IH)
  have b: "[] \<notin> set (group_loop m ss gs (cur @ [s]) (len + length s))"
    using Cons.prems by (rule Cons.IH)
  have c: "cur \<noteq> [] \<Longrightarrow> [] \<notin> set (group_loop m ss (gs @ [cur]) [s] (length s))"
  proof -
    assume "cur \<noteq> []"
    with Cons.prems have "[] \<notin> set (gs @ [cur])" by simp
    then show ?thesis by (rule Cons.IH)
  qed
  show ?case using a b c by (cases "cur = []") simp_all
qed

lemma group_loop_within_limit:
  "\<forall>g \<in> set gs. within_limit m g \<Longrightarrow> len = sum_list (map length cur) \<Longrightarrow>
   cur = [] \<or> within_limit m cur \<Longrightarrow>
   \<forall>g \<in> set (group_loop m ss gs cur len). within_limit m g"
proof (induction ss arbitrary: gs cur len)
  case Nil
  then show ?case by auto
next
  case (Cons s ss)
  show ?case
  proof (cases "int len + int (length s) > m")
    case over: True
    show ?thesis
    proof (cases "cur = []")
      case True
      with Cons.prems over have "within_limit m [s]"
        by (simp add: within_limit_def)
      with Cons.prems have "\<forall>g \<in> set (gs @ [[s]]). within_limit m g" by simp
      from Cons.IH [OF this Cons.prems(2) Cons.prems(3)] over True
      show ?thesis by simp
    next
      case False
      with Cons.prems have "\<forall>g \<in> set (gs @ [cur]). within_limit m g" by simp
      moreover have "length s = sum_list (map length [s])" by simp
      moreover have "[s] = [] \<or> within_limit m [s]"
        by (simp add: within_limit_def) linarith
      ultimately have "\<forall>g \<in> set (group_loop m ss (gs @ [cur]) [s] (length s)). within_limit m g"
        by (rule Cons.IH)
      with over False show ?thesis by simp
    qed
  next
    case False
    have "len + length s = sum_list (map length (cur @ [s]))"
      using Cons.prems(2) by simp
    moreover have "cur @ [s] = [] \<or> within_limit m (cur @ [s])"
      using False Cons.prems(2) by (simp add: within_limit_def)
    ultimately have "\<forall>g \<in> set (group_loop m ss gs (cur @ [s]) (len + length s)). within_limit m g"
      by (rule Cons.IH [OF Cons.prems(1)])
    with False show ?thesis by simp
  qed
qed

lemma chunk_groups:
  assumes "c \<in> set (chunk_text text m)"
  obtains g where "g \<noteq> []" "c = render_chunk g" "sublist g (split_sentences text)"
    "within_limit m g"
proof -
  let ?G = "group_loop m (split_sentences text) [] [] 0"
  from assms obtain g where g: "g \<in> set ?G" "c = render_chunk g"
    by (auto simp: chunk_text_groups)
  have ne: "g \<noteq> []"
    using group_loop_nonempty [of "[]" m "split_sentences text" "[]" 0] g by auto
  have lim: "within_limit m g"
    using group_loop_within_limit [of "[]" m 0 "[]" "split_sentences text"] g by simp
  from g(1) obtain G1 G2 where "?G = G1 @ g # G2" by (meson split_list)
  then have "concat ?G = concat G1 @ g @ concat G2" by simp
  then have "split_sentences text = concat G1 @ g @ concat G2"
    by (simp add: group_loop_concat)
  then have "sublist g (split_sentences text)" by (auto simp: sublist_def)
  with ne g(2) lim show ?thesis using that by blast
qed

lemma chunk_text_no_delimiter:
  "\<not> has_delimiter text \<Longrightarrow> int (length text) > m \<Longrightarrow> chunk_text text m = [text @ ''.'']"
  by (simp add: chunk_text_def split_sentences_def split_from_no_delimiter)

lemma has_delimiter_replicate: "c \<noteq> CHR ''.'' \<Longrightarrow> \<not> has_delimiter (replicate n c)"
proof (induction n)
  case (Suc n)
  then show ?case by (cases n) auto
qed simp

lemma has_delimiter_sublist: "has_delimiter s \<longleftrightarrow> sublist ''. '' s"
proof (induction s rule: has_delimiter.induct)
  case (1 c d cs)
  then show ?case by (auto simp: sublist_Cons_right)
qed (auto simp: sublist_Cons_right)

lemma chunk_substring:
  assumes "c \<in> set (chunk_text text m)"
  shows "\<exists>u. c = u @ ''.'' \<and> sublist u text"
proof -
  from assms obtain g where g: "g \<noteq> []" "c = render_chunk g" "sublist g (split_sentences text)"
    by (rule chunk_groups)
  from g(3) obtain a b where "split_sentences text = a @ g @ b"
    by (auto simp: sublist_def)
  then have "text = join_str ''. '' (a @ g @ b)"
    using join_split_sentences [of "text"] by simp
  with join_sublist [OF g(1), of "''. ''" a b] have "sublist (join_str ''. '' g) text"
    by (auto simp: sublist_def)
  with g(2) show ?thesis by (auto simp: render_chunk_def)
qed

section \<open>The orchestrator\<close>


lemma embed_loop_fails:
  "s \<in> set ss \<Longrightarrow> f s = Inl e \<Longrightarrow> \<exists>e'. embed_loop f ss acc = Inl e'"
proof (induction ss arbitrary: acc)
  case Nil
  then show ?case by simp
next
  case (Cons x xs)
  show ?case
  proof (cases "f x")
    case (Inl a)
    then show ?thesis by simp
  next
    case (Inr v)
    with Cons.prems have "s \<in> set xs" by auto
    from Cons.IH [OF this Cons.prems(2)] Inr show ?thesis by simp
  qed
qed

lemma summarize_loop_fails:
  "c \<in> set chunks \<Longrightarrow> summarize_chunk self ratio c = Inl e \<Longrightarrow>
   \<exists>c' e'. c' \<in> set chunks \<and> summarize_chunk self ratio c' = Inl e' \<and>
           summarize_loop self ratio chunks acc = Inl e'"
proof (induction chunks arbitrary: acc)
  case Nil
  then show ?case by simp
next
  case (Cons x xs)
  show ?case
  proof (cases "summarize_chunk self ratio x")
    case (Inl a)
    then show ?thesis by auto
  next
    case (Inr v)
    with Cons.prems have "c \<in> set xs" by auto
    from Cons.IH [OF this Cons.prems(2), of "acc @ [v]"] Inr show ?thesis by auto
  qed
qed

lemma summarize_loop_succeeds:
  "\<forall>c \<in> set chunks. \<exists>a. summarize_chunk self ratio c = Inr a \<Longrightarrow>
   \<exists>all. summarize_loop self ratio chunks acc = Inr all"
proof (induction chunks arbitrary: acc)
  case Nil
  then show ?case by simp
next
  case (Cons x xs)
  then obtain a where a: "summarize_chunk self ratio x = Inr a" by auto
  from Cons.prems have "\<forall>c \<in> set xs. \<exists>a. summarize_chunk self ratio c = Inr a" by simp
  from Cons.IH [OF this, of "acc @ [a]"] a show ?case by simp
qed

lemma chunk_text_empty: "chunk_text [] m = [''.'']"
  by (simp add: chunk_text_def split_sentences_def)

lemma summarize_try_empty: "\<exists>e. summarize_try self [] ratio = Inl e"
  by (cases "summarize_loop self ratio (chunk_text [] 512) []") (simp_all add: summarize_try_def)

lemma echo_chunk_a:
  "summarize_chunk echo_summarizer (Finite r) ''a.'' = Inr ''a.''"
  by (simp add: summarize_chunk_def split_sentences_def get_sentence_embeddings_def
      select_important_sentences_def num_sentences_or_raise_def num_sentences_def
      echo_summarizer_def)

lemma three_sentence_chunks: "chunk_text ''a. b. c'' 512 = [''a. b. c.'']"
  by (simp add: chunk_text_def split_sentences_def)

lemma three_sentence_chunk_fails:
  "summarize_chunk echo_summarizer (Finite (3 / 10)) ''a. b. c.'' = Inl TypeError"
  by (simp add: summarize_chunk_def split_sentences_def get_sentence_embeddings_def
      select_important_sentences_def num_sentences_or_raise_def num_sentences_def py_int_def
      cosine_similarity_def echo_summarizer_def)

lemma chunk_text_nonempty: "chunk_text text m \<noteq> []"
proof
  assume "chunk_text text m = []"
  then have "group_loop m (split_sentences text) [] [] 0 = []"
    by (simp add: chunk_text_groups)
  then have "concat (group_loop m (split_sentences text) [] [] 0) = []" by simp
  then have "split_sentences text = []" by (simp add: group_loop_concat)
  then show False by (simp add: split_sentences_def split_from_nonempty)
qed

lemma summarize_chunk_raises_at_count:
  assumes "num_sentences_or_raise self (length (split_sentences c)) ratio = Inl e"
  shows "\<exists>e'. summarize_chunk self ratio c = Inl e'"
  using assms
  by (cases "get_sentence_embeddings self (split_sentences c)")
    (simp_all add: summarize_chunk_def)

lemma count_raises_not_finite:
  "0 < n \<Longrightarrow> ratio = PosInf \<or> ratio = NegInf \<or> ratio = NaN \<Longrightarrow>
   \<exists>e. num_sentences_or_raise self n ratio = Inl e"
  by (auto simp: num_sentences_or_raise_def)

lemma count_raises_overflow:
  "overflows self (real n * r) \<Longrightarrow> num_sentences_or_raise self n (Finite r) = Inl OverflowError"
  by (simp add: num_sentences_or_raise_def)

lemma summarize_fails:
  assumes "c \<in> set (chunk_text text 512)" "summarize_chunk self ratio c = Inl e"
  shows "\<exists>msg. summarize self text ratio = \<lparr>summary = [], metadata = Error msg\<rparr>"
proof -
  from summarize_loop_fails [OF assms, of "[]"]
  obtain e' where "summarize_loop self ratio (chunk_text text 512) [] = Inl e'" by blast
  then show ?thesis by (simp add: summarize_def summarize_try_def)
qed

lemma split_from_delimiter:
  "\<not> has_delimiter u \<Longrightarrow> u = [] \<or> last u \<noteq> CHR ''.'' \<Longrightarrow>
   split_from acc (u @ ''. '' @ v) = (acc @ u) # split_from [] v"
proof (induction u arbitrary: acc)
  case Nil
  then show ?case by simp
next
  case (Cons x xs)
  show ?case
  proof (cases xs)
    case Nil
    with Cons.prems show ?thesis by simp
  next
    case (Cons d ds)
    with Cons.prems have nd: "\<not> (x = CHR ''.'' \<and> d = CHR '' '')" "\<not> has_delimiter xs"
      "xs = [] \<or> last xs \<noteq> CHR ''.''"
      by auto
    from Cons.IH [OF nd(2) nd(3), of "acc @ [x]"] nd(1) Cons show ?thesis by auto
  qed
qed

lemma has_delimiter_snoc:
  "has_delimiter (u @ [d]) \<longleftrightarrow>
     has_delimiter u \<or> (u \<noteq> [] \<and> last u = CHR ''.'' \<and> d = CHR '' '')"
  by (induction u rule: has_delimiter.induct) auto

lemma split_two_sentences:
  "c \<noteq> CHR ''.'' \<Longrightarrow> d \<noteq> CHR ''.'' \<Longrightarrow>
   split_sentences (replicate m c @ ''. '' @ replicate n d) = [replicate m c, replicate n d]"
  unfolding split_sentences_def
  by (subst split_from_delimiter) (auto simp: has_delimiter_replicate split_from_no_delimiter)

lemma two_chunk_split:
  "split_sentences two_chunk_text = [replicate 300 CHR ''a'', replicate 300 CHR ''b'']"
  unfolding two_chunk_text_def split_sentences_def
  by (subst split_from_delimiter) (simp_all add: has_delimiter_replicate split_from_no_delimiter)

lemma two_chunk_chunks:
  "chunk_text two_chunk_text 512 = [replicate 300 CHR ''a'' @ ''.'', replicate 300 CHR ''b'' @ ''.'']"
  by (simp add: chunk_text_def two_chunk_split)

lemma first_chunk_ok:
  "summarize_chunk failing_summarizer (Finite r) (replicate 300 CHR ''a'' @ ''.'')
     = Inr (replicate 300 CHR ''a'' @ ''.'')"
  by (simp add: summarize_chunk_def split_sentences_def split_from_no_delimiter
      has_delimiter_snoc has_delimiter_replicate get_sentence_embeddings_def
      select_important_sentences_def num_sentences_or_raise_def num_sentences_def
      failing_summarizer_def echo_summarizer_def hd_append)

lemma second_chunk_fails:
  "summarize_chunk failing_summarizer ratio (replicate 300 CHR ''b'' @ ''.'')
     = Inl (Raised ''embedding failed'')"
  by (simp add: summarize_chunk_def split_sentences_def split_from_no_delimiter
      has_delimiter_snoc has_delimiter_replicate get_sentence_embeddings_def
      failing_summarizer_def echo_summarizer_def hd_append)

section \<open>The selector\<close>

lemma concat_if_filter:
  "concat (map (\<lambda>j. if P j then [f j] else []) xs) = map f (filter P xs)"
  by (induction xs) simp_all

lemma cluster_sentences_members:
  "length sentences = length clusters \<Longrightarrow>
   [s. (j, s) \<leftarrow> enumerate 0 sentences, clusters ! j = i]
     = map ((!) sentences) (members clusters i)"
proof -
  assume len: "length sentences = length clusters"
  have e: "enumerate 0 sentences = map (\<lambda>j. (j, sentences ! j)) [0..<length sentences]"
    by (rule nth_equalityI) (simp_all add: nth_enumerate_eq)
  have "[s. (j, s) \<leftarrow> enumerate 0 sentences, clusters ! j = i]
          = concat (map (\<lambda>j. if clusters ! j = i then [sentences ! j] else []) [0..<length sentences])"
    by (simp add: e comp_def)
  also have "\<dots> = map ((!) sentences) (filter (\<lambda>j. clusters ! j = i) [0..<length sentences])"
    by (rule concat_if_filter)
  finally show ?thesis by (simp add: members_def len)
qed


lemma cluster_embeddings_members:
  "length embeddings = length clusters \<Longrightarrow>
   [e. (c, e) \<leftarrow> zip clusters embeddings, c = i]
     = map ((!) embeddings) (members clusters i)"
proof -
  assume len: "length embeddings = length clusters"
  have z: "zip clusters embeddings
             = map (\<lambda>j. (clusters ! j, embeddings ! j)) [0..<length clusters]"
    by (rule nth_equalityI) (simp_all add: len)
  have "[e. (c, e) \<leftarrow> zip clusters embeddings, c = i]
          = concat (map (\<lambda>j. if clusters ! j = i then [embeddings ! j] else []) [0..<length clusters])"
    by (simp add: z comp_def)
  also have "\<dots> = map ((!) embeddings) (filter (\<lambda>j. clusters ! j = i) [0..<length clusters])"
    by (rule concat_if_filter)
  finally show ?thesis by (simp add: members_def)
qed

lemma members_sorted: "sorted_wrt (<) (members clusters i)"
  unfolding members_def by (rule sorted_wrt_filter) simp

lemma members_set: "set (members clusters i) = {j. j < length clusters \<and> clusters ! j = i}"
  by (auto simp: members_def)

lemma members_empty: "members clusters i = [] \<longleftrightarrow> i \<notin> set clusters"
  by (auto simp: members_def filter_empty_conv in_set_conv_nth)

lemma argmax_loop_best:
  "i = length pre \<Longrightarrow> best_idx < i \<Longrightarrow> best = pre ! best_idx \<Longrightarrow>
   \<forall>k < i. pre ! k \<le> best \<Longrightarrow> \<forall>k < best_idx. pre ! k < best \<Longrightarrow>
   argmax_loop xs i best best_idx < length (pre @ xs) \<and>
   (\<forall>k < length (pre @ xs). (pre @ xs) ! k \<le> (pre @ xs) ! argmax_loop xs i best best_idx) \<and>
   (\<forall>k < argmax_loop xs i best best_idx.
      (pre @ xs) ! k < (pre @ xs) ! argmax_loop xs i best best_idx)"
proof (induction xs arbitrary: pre i best best_idx)
  case Nil
  then show ?case by simp
next
  case (Cons x xs)
  have app: "pre @ x # xs = (pre @ [x]) @ xs" by simp
  show ?case
  proof (cases "x > best")
    case True
    have "argmax_loop xs (Suc i) x i < length ((pre @ [x]) @ xs) \<and>
      (\<forall>k < length ((pre @ [x]) @ xs).
         ((pre @ [x]) @ xs) ! k \<le> ((pre @ [x]) @ xs) ! argmax_loop xs (Suc i) x i) \<and>
      (\<forall>k < argmax_loop xs (Suc i) x i.
         ((pre @ [x]) @ xs) ! k < ((pre @ [x]) @ xs) ! argmax_loop xs (Suc i) x i)"
    proof (rule Cons.IH)
      show "Suc i = length (pre @ [x])" using Cons.prems(1) by simp
      show "i < Suc i" by simp
      show "x = (pre @ [x]) ! i" using Cons.prems(1) by simp
      show "\<forall>k < Suc i. (pre @ [x]) ! k \<le> x"
        using Cons.prems(1,4) True by (auto simp: nth_append less_Suc_eq)
      show "\<forall>k < i. (pre @ [x]) ! k < x"
        using Cons.prems(1,4) True by (auto simp: nth_append)
    qed
    with True show ?thesis unfolding app by simp
  next
    case False
    have "argmax_loop xs (Suc i) best best_idx < length ((pre @ [x]) @ xs) \<and>
      (\<forall>k < length ((pre @ [x]) @ xs).
         ((pre @ [x]) @ xs) ! k \<le> ((pre @ [x]) @ xs) ! argmax_loop xs (Suc i) best best_idx) \<and>
      (\<forall>k < argmax_loop xs (Suc i) best best_idx.
         ((pre @ [x]) @ xs) ! k < ((pre @ [x]) @ xs) ! argmax_loop xs (Suc i) best best_idx)"
    proof (rule Cons.IH)
      show "Suc i = length (pre @ [x])" using Cons.prems(1) by simp
      show "best_idx < Suc i" using Cons.prems(2) by simp
      show "best = (pre @ [x]) ! best_idx" using Cons.prems(1,2,3) by (simp add: nth_append)
      show "\<forall>k < Suc i. (pre @ [x]) ! k \<le> best"
        using Cons.prems(1,4) False by (auto simp: nth_append less_Suc_eq)
      show "\<forall>k < best_idx. (pre @ [x]) ! k < best"
        using Cons.prems(1,2,5) by (auto simp: nth_append)
    qed
    with False show ?thesis unfolding app by simp
  qed
qed

lemma argmax_first_max:
  assumes "xs \<noteq> []"
  obtains b where "argmax xs = Inr b" "b < length xs" "\<forall>k < length xs. xs ! k \<le> xs ! b"
    "\<forall>k < b. xs ! k < xs ! b"
proof -
  from assms obtain x rest where xs: "xs = x # rest" by (cases xs) auto
  have "argmax_loop rest 1 x 0 < length ([x] @ rest) \<and>
     (\<forall>k < length ([x] @ rest). ([x] @ rest) ! k \<le> ([x] @ rest) ! argmax_loop rest 1 x 0) \<and>
     (\<forall>k < argmax_loop rest 1 x 0. ([x] @ rest) ! k < ([x] @ rest) ! argmax_loop rest 1 x 0)"
    by (rule argmax_loop_best) simp_all
  then show ?thesis using that [of "argmax_loop rest 1 x 0"] xs by (simp add: argmax_def)
qed


lemma select_loop_skip:
  assumes "length sentences = length clusters" "length embeddings = length clusters"
    and "i \<notin> set clusters"
  shows "select_loop self sentences embeddings clusters centers (i # rest) acc
           = select_loop self sentences embeddings clusters centers rest acc"
proof -
  have "members clusters i = []" using assms(3) by (simp add: members_empty)
  then show ?thesis
    using assms(1,2)
    by (simp add: cluster_sentences_members cluster_embeddings_members
        del: concat_map_singleton)
qed

lemma select_loop_raises:
  assumes "length sentences = length clusters" "length embeddings = length clusters"
    and "i \<in> set clusters" and "i < length centers"
  shows "select_loop self sentences embeddings clusters centers (i # rest) acc = Inl TypeError"
proof -
  have "members clusters i \<noteq> []" using assms(3) by (simp add: members_empty)
  then show ?thesis
    using assms(1,2,4)
    by (simp add: cluster_sentences_members cluster_embeddings_members cosine_similarity_def
        del: concat_map_singleton)
qed

lemma select_loop_type_error:
  assumes "length sentences = length clusters" "length embeddings = length clusters"
  shows "\<forall>i \<in> set cs. i < length centers \<Longrightarrow> \<exists>i \<in> set cs. i \<in> set clusters \<Longrightarrow>
         select_loop self sentences embeddings clusters centers cs acc = Inl TypeError"
proof (induction cs)
  case Nil
  then show ?case by simp
next
  case (Cons i rest)
  show ?case
  proof (cases "i \<in> set clusters")
    case True
    from Cons.prems(1) have "i < length centers" by simp
    with True show ?thesis by (rule select_loop_raises [OF assms])
  next
    case False
    with Cons.prems have "\<forall>i \<in> set rest. i < length centers" "\<exists>i \<in> set rest. i \<in> set clusters"
      by auto
    then have "select_loop self sentences embeddings clusters centers rest acc = Inl TypeError"
      by (rule Cons.IH)
    moreover have "select_loop self sentences embeddings clusters centers (i # rest) acc
                     = select_loop self sentences embeddings clusters centers rest acc"
      by (rule select_loop_skip [OF assms False])
    ultimately show ?thesis by (simp only:)
  qed
qed

section \<open>Claims about the chunker\<close>

text \<open>
  Claim C4, on the code. The running length of the loop counts the characters of the
  sentences only, not the delimiters that join them nor the appended full stop. With
  \<^verbatim>\<open>max_chunk_size = 5\<close> the text \<^verbatim>\<open>ab. cd\<close> has two sentences of two characters
  each, both below the limit, and its only chunk has seven characters. With the default
  limit of 512, two sentences of 256 letters each give one chunk of 515 characters.
\<close>

theorem chunk_exceeds_limit:
  "chunk_text ''ab. cd'' 5 = [''ab. cd.''] \<and> split_sentences ''ab. cd'' = [''ab'', ''cd''] \<and>
   int (length ''ab. cd.'') > 5 \<and> int (length ''ab'') \<le> 5 \<and> int (length ''cd'') \<le> 5 \<and>
   map length (chunk_text (replicate 256 CHR ''a'' @ ''. '' @ replicate 256 CHR ''b'') 512)
     = [515]"
proof -
  have sp: "split_sentences (replicate 256 CHR ''a'' @ ''. '' @ replicate 256 CHR ''b'')
              = [replicate 256 CHR ''a'', replicate 256 CHR ''b'']"
    by (rule split_two_sentences) simp_all
  have "chunk_text (replicate 256 CHR ''a'' @ ''. '' @ replicate 256 CHR ''b'') 512
          = [replicate 256 CHR ''a'' @ ''. '' @ replicate 256 CHR ''b'' @ ''.'']"
    unfolding chunk_text_def sp by simp
  moreover have "chunk_text ''ab. cd'' 5 = [''ab. cd.'']"
    "split_sentences ''ab. cd'' = [''ab'', ''cd'']"
    by (simp_all add: chunk_text_def split_sentences_def)
  ultimately show ?thesis by simp
qed

text \<open>
  Claim C5. Taking the appended full stop off every chunk and joining the chunks with the
  sentence delimiter gives the text back, and so splitting that string gives the sentence
  sequence of the text. It holds for the empty text as well.
\<close>

theorem chunks_reconstruct_sentences:
  "join_str ''. '' (map butlast (chunk_text text max_chunk_size)) = text \<and>
   split_sentences (join_str ''. '' (map butlast (chunk_text text max_chunk_size)))
     = split_sentences text"
proof -
  let ?G = "group_loop max_chunk_size (split_sentences text) [] [] 0"
  have ne: "\<forall>g \<in> set ?G. g \<noteq> []"
    using group_loop_nonempty [of "[]" max_chunk_size "split_sentences text" "[]" 0] by auto
  have "map butlast (chunk_text text max_chunk_size) = map (join_str ''. '') ?G"
    by (simp add: chunk_text_groups render_chunk_def butlast_append)
  then have "join_str ''. '' (map butlast (chunk_text text max_chunk_size))
               = join_str ''. '' (concat ?G)"
    using join_concat [OF ne] by simp
  also have "\<dots> = text"
    by (simp add: group_loop_concat join_split_sentences)
  finally show ?thesis by simp
qed

text \<open>
  Claim C9, as amended. With \<^verbatim>\<open>max_chunk_size = 50\<close>, a text of 120 characters in
  which the delimiter does not occur gives exactly one chunk: the text followed by a full
  stop, 121 characters long. The function has no failing branch.
\<close>

theorem oversized_sentence_chunk:
  "length text = 120 \<Longrightarrow> \<not> has_delimiter text \<Longrightarrow>
   chunk_text text 50 = [text @ ''.''] \<and> map length (chunk_text text 50) = [121]"
  by (simp add: chunk_text_no_delimiter)

theorem oversized_sentence_chunk_witness:
  "length (replicate 120 CHR ''a'') = 120 \<and> \<not> has_delimiter (replicate 120 CHR ''a'') \<and>
   chunk_text (replicate 120 CHR ''a'') 50 = [replicate 120 CHR ''a'' @ ''.''] \<and>
   map length (chunk_text (replicate 120 CHR ''a'') 50) = [121]"
proof -
  have h1: "length (replicate 120 CHR ''a'') = 120" by simp
  have h2: "\<not> has_delimiter (replicate 120 CHR ''a'')"
    by (simp add: has_delimiter_replicate)
  show ?thesis using h1 h2 oversized_sentence_chunk [OF h1 h2] by simp
qed

text \<open>
  Claim C9 as the specification states it fails: the chunk made from 120 letters has 121
  characters, not 120.
\<close>

theorem oversized_sentence_counterexample:
  "\<not> has_delimiter (replicate 120 CHR ''a'') \<and>
   map length (chunk_text (replicate 120 CHR ''a'') 50) \<noteq> [120]"
  by (simp add: has_delimiter_replicate chunk_text_no_delimiter)

text \<open>
  Claim C10, as amended. Every chunk ends with a full stop that the chunker appended: the
  chunk is a contiguous piece of the text followed by one full stop. So no chunk is a
  suffix of a text that does not end with a full stop. A chunk may still occur inside
  such a text.
\<close>

theorem chunk_ends_with_period:
  assumes "c \<in> set (chunk_text text max_chunk_size)"
  shows "(\<exists>u. c = u @ ''.'' \<and> sublist u text) \<and> last c = CHR ''.'' \<and>
         (text = [] \<or> last text \<noteq> CHR ''.'' \<longrightarrow> \<not> suffix c text)"
proof -
  from chunk_substring [OF assms] obtain u where u: "c = u @ ''.''" "sublist u text"
    by blast
  then have l: "last c = CHR ''.''" by simp
  have "\<not> suffix c text" if "text = [] \<or> last text \<noteq> CHR ''.''"
  proof
    assume "suffix c text"
    then obtain p where "text = p @ c" by (auto simp: suffix_def)
    with u(1) have "text \<noteq> [] \<and> last text = CHR ''.''" by simp
    with that show False by simp
  qed
  with u l show ?thesis by blast
qed

theorem chunk_ends_with_period_witness:
  "''c.'' \<in> set (chunk_text ''a. b. c'' 1) \<and>
   (\<exists>u. ''c.'' = u @ ''.'' \<and> sublist u ''a. b. c'') \<and> last ''c.'' = CHR ''.'' \<and>
   last ''a. b. c'' \<noteq> CHR ''.'' \<and> \<not> suffix ''c.'' ''a. b. c''"
proof -
  have h: "''c.'' \<in> set (chunk_text ''a. b. c'' 1)"
    by (simp add: chunk_text_def split_sentences_def)
  show ?thesis using h chunk_ends_with_period [OF h] by simp
qed

text \<open>
  Claim C10 as the specification states it fails in its last part: the text
  \<^verbatim>\<open>a. b. c\<close> does not end with a full stop, and with \<^verbatim>\<open>max_chunk_size = 1\<close> its
  first chunk \<^verbatim>\<open>a.\<close> occurs in it verbatim.
\<close>

theorem chunk_verbatim_counterexample:
  "''a.'' \<in> set (chunk_text ''a. b. c'' 1) \<and> last ''a. b. c'' \<noteq> CHR ''.'' \<and>
   sublist ''a.'' ''a. b. c''"
proof -
  have "''a. b. c'' = [] @ ''a.'' @ '' b. c''" by simp
  then have "sublist ''a.'' ''a. b. c''" unfolding sublist_def by blast
  then show ?thesis by (simp add: chunk_text_def split_sentences_def)
qed

section \<open>Claims about the orchestrator\<close>

text \<open>
  Claim C1. A stage fails for a chunk when the embedding raises for one of its sentences,
  or the embeddings are computed and the target count of line 169 raises, or the count is
  computed and the selection (the clustering) raises, or the selection succeeds and the
  compression raises. If that happens for some chunk of the text, the call returns the
  failure result: the summary is empty and the metadata holds only the description of the
  exception raised by the first chunk that failed. The summaries of the chunks before it
  are not part of the result.
\<close>

theorem summarize_failure_propagates:
  assumes "chunk \<in> set (chunk_text text 512)"
    and "(\<exists>s \<in> set (split_sentences chunk). \<exists>e. embed_sentence self s = Inl e) \<or>
         (\<exists>embeddings e. get_sentence_embeddings self (split_sentences chunk) = Inr embeddings \<and>
            num_sentences_or_raise self (length (split_sentences chunk)) ratio = Inl e) \<or>
         (\<exists>embeddings k e. get_sentence_embeddings self (split_sentences chunk) = Inr embeddings \<and>
            num_sentences_or_raise self (length (split_sentences chunk)) ratio = Inr k \<and>
            select_important_sentences self (split_sentences chunk) embeddings k = Inl e) \<or>
         (\<exists>embeddings k important e.
            get_sentence_embeddings self (split_sentences chunk) = Inr embeddings \<and>
            num_sentences_or_raise self (length (split_sentences chunk)) ratio = Inr k \<and>
            select_important_sentences self (split_sentences chunk) embeddings k
              = Inr important \<and>
            summarizer self (join_str '' '' important) (max_length self) (min_length self) = Inl e)"
  shows "\<exists>c' e'. c' \<in> set (chunk_text text 512) \<and> summarize_chunk self ratio c' = Inl e' \<and>
           summarize self text ratio = \<lparr>summary = [], metadata = Error (exn_str e')\<rparr>"
proof -
  have "\<exists>e. summarize_chunk self ratio chunk = Inl e"
    using assms(2)
  proof (elim disjE bexE exE conjE)
    fix s e
    assume "s \<in> set (split_sentences chunk)" "embed_sentence self s = Inl e"
    then obtain e' where "embed_loop (embed_sentence self) (split_sentences chunk) [] = Inl e'"
      using embed_loop_fails by blast
    then show ?thesis by (simp add: summarize_chunk_def get_sentence_embeddings_def)
  next
    fix embeddings e
    assume "get_sentence_embeddings self (split_sentences chunk) = Inr embeddings"
      "num_sentences_or_raise self (length (split_sentences chunk)) ratio = Inl e"
    then show ?thesis by (simp add: summarize_chunk_def)
  next
    fix embeddings k e
    assume "get_sentence_embeddings self (split_sentences chunk) = Inr embeddings"
      "num_sentences_or_raise self (length (split_sentences chunk)) ratio = Inr k"
      "select_important_sentences self (split_sentences chunk) embeddings k = Inl e"
    then show ?thesis by (simp add: summarize_chunk_def)
  next
    fix embeddings k important e
    assume "get_sentence_embeddings self (split_sentences chunk) = Inr embeddings"
      "num_sentences_or_raise self (length (split_sentences chunk)) ratio = Inr k"
      "select_important_sentences self (split_sentences chunk) embeddings k = Inr important"
      "summarizer self (join_str '' '' important) (max_length self) (min_length self) = Inl e"
    then show ?thesis by (simp add: summarize_chunk_def)
  qed
  then obtain e where "summarize_chunk self ratio chunk = Inl e" ..
  from summarize_loop_fails [OF assms(1) this, of "[]"]
  obtain c' e' where c': "c' \<in> set (chunk_text text 512)"
    "summarize_chunk self ratio c' = Inl e'"
    "summarize_loop self ratio (chunk_text text 512) [] = Inl e'"
    by blast
  then have "summarize self text ratio = \<lparr>summary = [], metadata = Error (exn_str e')\<rparr>"
    by (simp add: summarize_def summarize_try_def)
  with c' show ?thesis by blast
qed

theorem summarize_failure_propagates_witness:
  "replicate 300 CHR ''b'' @ ''.'' \<in> set (chunk_text two_chunk_text 512) \<and>
   split_sentences (replicate 300 CHR ''b'' @ ''.'') = [replicate 300 CHR ''b'' @ ''.''] \<and>
   embed_sentence failing_summarizer (replicate 300 CHR ''b'' @ ''.'')
     = Inl (Raised ''embedding failed'') \<and>
   summarize_chunk failing_summarizer (Finite (3 / 10)) (replicate 300 CHR ''a'' @ ''.'')
     = Inr (replicate 300 CHR ''a'' @ ''.'') \<and>
   (\<exists>c' e'. c' \<in> set (chunk_text two_chunk_text 512) \<and>
      summarize_chunk failing_summarizer (Finite (3 / 10)) c' = Inl e' \<and>
      summarize failing_summarizer two_chunk_text (Finite (3 / 10))
        = \<lparr>summary = [], metadata = Error (exn_str e')\<rparr>) \<and>
   summarize failing_summarizer two_chunk_text (Finite (3 / 10))
     = \<lparr>summary = [], metadata = Error ''embedding failed''\<rparr>"
proof -
  have h1: "replicate 300 CHR ''b'' @ ''.'' \<in> set (chunk_text two_chunk_text 512)"
    by (simp add: two_chunk_chunks)
  have sp: "split_sentences (replicate 300 CHR ''b'' @ ''.'') = [replicate 300 CHR ''b'' @ ''.'']"
    by (simp add: split_sentences_def split_from_no_delimiter has_delimiter_snoc
        has_delimiter_replicate)
  have em: "embed_sentence failing_summarizer (replicate 300 CHR ''b'' @ ''.'')
     = Inl (Raised ''embedding failed'')"
    by (simp add: failing_summarizer_def echo_summarizer_def hd_append)
  have h2: "\<exists>s \<in> set (split_sentences (replicate 300 CHR ''b'' @ ''.'')).
              \<exists>e. embed_sentence failing_summarizer s = Inl e"
    by (simp add: sp em)
  have r: "summarize failing_summarizer two_chunk_text (Finite (3 / 10))
     = \<lparr>summary = [], metadata = Error ''embedding failed''\<rparr>"
    by (simp add: summarize_def summarize_try_def two_chunk_chunks first_chunk_ok
        second_chunk_fails)
  show ?thesis
    using h1 sp em first_chunk_ok [of "3 / 10"] r
      summarize_failure_propagates [OF h1 disjI1, OF h2, of "Finite (3 / 10)"]
    by blast
qed

text \<open>
  Claim C2, on the code. For the empty text the chunker returns one chunk, a lone full
  stop, and the call returns the failure result whatever the models do: if no stage raises,
  the quotient of the two lengths divides by zero.
\<close>

theorem summarize_empty_text_fails:
  "chunk_text [] 512 = [''.''] \<and>
   (\<exists>msg. summarize self [] ratio = \<lparr>summary = [], metadata = Error msg\<rparr>) \<and>
   summarize echo_summarizer [] (Finite (3 / 10))
     = \<lparr>summary = [], metadata = Error ''division by zero''\<rparr>"
proof -
  obtain e where "summarize_try self [] ratio = Inl e"
    using summarize_try_empty by blast
  then have "\<exists>msg. summarize self [] ratio = \<lparr>summary = [], metadata = Error msg\<rparr>"
    by (simp add: summarize_def)
  moreover have "summarize echo_summarizer [] (Finite (3 / 10))
     = \<lparr>summary = [], metadata = Error ''division by zero''\<rparr>"
    by (simp add: summarize_def summarize_try_def chunk_text_empty summarize_chunk_def
        split_sentences_def get_sentence_embeddings_def select_important_sentences_def
        num_sentences_or_raise_def num_sentences_def py_int_def echo_summarizer_def)
  ultimately show ?thesis by (simp add: chunk_text_empty)
qed

text \<open>
  Claim C3, as amended. The call does not check the range of the compression ratio and has
  no validation failure. For a non-empty text and every ratio, inside or outside the
  interval from 0 to 1: the result is a success with the four statistics when every chunk is
  processed without an exception, and the failure result when some chunk raises. A ratio
  that is infinite or not a number, and a finite ratio whose product with the sentence count
  of some chunk overflows, give the failure result, because \<^verbatim>\<open>int()\<close> raises at line
  169 unless the embedding has raised before.
\<close>

theorem summarize_no_ratio_validation:
  assumes "text \<noteq> []"
  shows "((\<forall>c \<in> set (chunk_text text 512). \<exists>a. summarize_chunk self ratio c = Inr a) \<longrightarrow>
            (\<exists>s. summarize self text ratio =
               \<lparr>summary = s,
                metadata = Stats (length text) (length s)
                  (fl self (real (length s) / real (length text)))
                  (length (chunk_text text 512))\<rparr>)) \<and>
         ((\<exists>c \<in> set (chunk_text text 512). \<exists>e. summarize_chunk self ratio c = Inl e) \<longrightarrow>
            (\<exists>msg. summarize self text ratio = \<lparr>summary = [], metadata = Error msg\<rparr>)) \<and>
         (ratio = PosInf \<or> ratio = NegInf \<or> ratio = NaN \<or>
            (\<exists>r. ratio = Finite r \<and>
               (\<exists>c \<in> set (chunk_text text 512).
                  overflows self (real (length (split_sentences c)) * r))) \<longrightarrow>
            (\<exists>msg. summarize self text ratio = \<lparr>summary = [], metadata = Error msg\<rparr>))"
proof (intro conjI impI)
  assume ok: "\<forall>c \<in> set (chunk_text text 512). \<exists>a. summarize_chunk self ratio c = Inr a"
  obtain all where "summarize_loop self ratio (chunk_text text 512) [] = Inr all"
    using summarize_loop_succeeds [OF ok] by blast
  with assms show "\<exists>s. summarize self text ratio =
               \<lparr>summary = s,
                metadata = Stats (length text) (length s)
                  (fl self (real (length s) / real (length text)))
                  (length (chunk_text text 512))\<rparr>"
    by (simp add: summarize_def summarize_try_def Let_def)
next
  assume "\<exists>c \<in> set (chunk_text text 512). \<exists>e. summarize_chunk self ratio c = Inl e"
  then show "\<exists>msg. summarize self text ratio = \<lparr>summary = [], metadata = Error msg\<rparr>"
    using summarize_fails by blast
next
  assume bad: "ratio = PosInf \<or> ratio = NegInf \<or> ratio = NaN \<or>
            (\<exists>r. ratio = Finite r \<and>
               (\<exists>c \<in> set (chunk_text text 512).
                  overflows self (real (length (split_sentences c)) * r)))"
  have "\<exists>c \<in> set (chunk_text text 512).
          \<exists>e. num_sentences_or_raise self (length (split_sentences c)) ratio = Inl e"
  proof (cases "ratio = PosInf \<or> ratio = NegInf \<or> ratio = NaN")
    case True
    obtain c where c: "c \<in> set (chunk_text text 512)"
      using chunk_text_nonempty [of "text" 512] by (cases "chunk_text text 512") auto
    have "0 < length (split_sentences c)"
      by (simp add: split_sentences_def split_from_nonempty)
    from count_raises_not_finite [OF this True] c show ?thesis by blast
  next
    case False
    with bad obtain r c where "ratio = Finite r" "c \<in> set (chunk_text text 512)"
      "overflows self (real (length (split_sentences c)) * r)"
      by blast
    then show ?thesis using count_raises_overflow by blast
  qed
  then obtain c e where "c \<in> set (chunk_text text 512)"
    "num_sentences_or_raise self (length (split_sentences c)) ratio = Inl e"
    by blast
  then show "\<exists>msg. summarize self text ratio = \<lparr>summary = [], metadata = Error msg\<rparr>"
    using summarize_chunk_raises_at_count summarize_fails by blast
qed

theorem summarize_no_ratio_validation_witness:
  "''a'' \<noteq> [] \<and>
   chunk_text ''a'' 512 = [''a.''] \<and>
   summarize_chunk echo_summarizer (Finite (3 / 2)) ''a.'' = Inr ''a.'' \<and>
   (\<exists>s. summarize echo_summarizer ''a'' (Finite (3 / 2)) =
           \<lparr>summary = s,
            metadata = Stats (length ''a'') (length s)
              (fl echo_summarizer (real (length s) / real (length ''a'')))
              (length (chunk_text ''a'' 512))\<rparr>) \<and>
   (\<exists>msg. summarize echo_summarizer ''a'' NaN = \<lparr>summary = [], metadata = Error msg\<rparr>)"
proof -
  have h1: "''a'' \<noteq> []" by simp
  have c: "chunk_text ''a'' 512 = [''a.'']"
    by (simp add: chunk_text_def split_sentences_def)
  have h2: "\<forall>c \<in> set (chunk_text ''a'' 512).
              \<exists>a. summarize_chunk echo_summarizer (Finite (3 / 2)) c = Inr a"
    by (simp add: c echo_chunk_a)
  show ?thesis
    using h1 c h2 echo_chunk_a [of "3 / 2"]
      summarize_no_ratio_validation [OF h1, of echo_summarizer "Finite (3 / 2)"]
      summarize_no_ratio_validation [OF h1, of echo_summarizer NaN]
    by blast
qed

text \<open>
  Claim C3 as the specification states it fails: with the ratios 0 and 1.5 the call on the
  text \<^verbatim>\<open>a\<close> returns a success result with the summary \<^verbatim>\<open>a.\<close>.
\<close>

theorem ratio_validation_counterexample:
  "summarize echo_summarizer ''a'' (Finite 0)
     = \<lparr>summary = ''a.'', metadata = Stats 1 2 2 1\<rparr> \<and>
   summarize echo_summarizer ''a'' (Finite (3 / 2))
     = \<lparr>summary = ''a.'', metadata = Stats 1 2 2 1\<rparr>"
proof -
  have c: "chunk_text ''a'' 512 = [''a.'']"
    by (simp add: chunk_text_def split_sentences_def)
  have "fl echo_summarizer = (\<lambda>x. x)" by (simp add: echo_summarizer_def)
  then show ?thesis
    by (simp add: summarize_def summarize_try_def c echo_chunk_a)
qed



section \<open>Claims about the selector\<close>

text \<open>
  Claim C6. When there are at most as many sentences as the target count, the selector
  returns the sentences as they are. The result is the same whatever KMeans would do,
  also when it would raise: the clustering is not run.
\<close>

theorem select_returns_all_when_few:
  assumes "int (length sentences) \<le> target"
  shows "select_important_sentences (self\<lparr>kmeans := km\<rparr>) sentences embeddings target
           = Inr sentences"
  using assms by (simp add: select_important_sentences_def)

theorem select_returns_all_when_few_witness:
  "int (length [''a'', ''b'']) \<le> 2 \<and>
   select_important_sentences (echo_summarizer\<lparr>kmeans := (\<lambda>k rows. Inl (Raised ''KMeans''))\<rparr>)
     [''a'', ''b''] [1, 1] 2 = Inr [''a'', ''b'']"
proof -
  have h: "int (length [''a'', ''b'']) \<le> 2" by simp
  show ?thesis using h select_returns_all_when_few [OF h] by simp
qed

text \<open>
  Claim C7, on the code. When there are more sentences than the target count, KMeans
  returns one label per sentence and one centre per cluster, and some cluster below the
  target count has a sentence, the selector emits nothing: at the first such cluster it
  passes the numpy centre to \<^verbatim>\<open>cosine_similarity\<close>, which raises a type error, and
  the exception leaves the function.
\<close>

theorem select_raises_type_error:
  assumes "target < int (length sentences)"
    and "kmeans self target embeddings = Inr (clusters, centers)"
    and "length clusters = length sentences" and "length embeddings = length sentences"
    and "length centers = nat target"
    and "\<exists>i < nat target. i \<in> set clusters"
  shows "select_important_sentences self sentences embeddings target = Inl TypeError"
proof -
  have a: "\<forall>i \<in> set [0..<nat target]. i < length centers" using assms(5) by simp
  have b: "\<exists>i \<in> set [0..<nat target]. i \<in> set clusters" using assms(6) by auto
  have "select_loop self sentences embeddings clusters centers [0..<nat target] [] = Inl TypeError"
    using select_loop_type_error [OF assms(3) [symmetric] _ a b] assms(3,4) by simp
  then show ?thesis using assms(1,2) by (simp add: select_important_sentences_def)
qed

theorem select_raises_type_error_witness:
  "(3::int) < int (length [''a'', ''b'', ''c'', ''d'', ''e'']) \<and>
   kmeans modular_summarizer 3 [12, 0, 12, 10, 2] = Inr ([2, 0, 2, 0, 2], [0, 0, 0]) \<and>
   length [2, 0, 2, 0, 2 :: nat] = length [''a'', ''b'', ''c'', ''d'', ''e''] \<and>
   length [12, 0, 12, 10, 2 :: nat] = length [''a'', ''b'', ''c'', ''d'', ''e''] \<and>
   length [0, 0, 0 :: nat] = nat 3 \<and>
   (\<exists>i < nat 3. i \<in> set [2, 0, 2, 0, 2 :: nat]) \<and>
   select_important_sentences modular_summarizer
     [''a'', ''b'', ''c'', ''d'', ''e''] [12, 0, 12, 10, 2] 3 = Inl TypeError \<and>
   summarize echo_summarizer ''a. b. c'' (Finite (3 / 10))
     = \<lparr>summary = [], metadata = Error (exn_str TypeError)\<rparr>"
proof -
  have h1: "(3::int) < int (length [''a'', ''b'', ''c'', ''d'', ''e''])" by simp
  have h2: "kmeans modular_summarizer 3 [12, 0, 12, 10, 2] = Inr ([2, 0, 2, 0, 2], [0, 0, 0])"
    by (simp add: modular_summarizer_def echo_summarizer_def numeral_3_eq_3)
  have h3: "length [2, 0, 2, 0, 2 :: nat] = length [''a'', ''b'', ''c'', ''d'', ''e'']" by simp
  have h4: "length [12, 0, 12, 10, 2 :: nat] = length [''a'', ''b'', ''c'', ''d'', ''e'']" by simp
  have h5: "length [0, 0, 0 :: nat] = nat 3" by simp
  have h6: "\<exists>i < nat 3. i \<in> set [2, 0, 2, 0, 2 :: nat]" by (rule exI [of _ 0]) simp
  have s: "summarize echo_summarizer ''a. b. c'' (Finite (3 / 10))
     = \<lparr>summary = [], metadata = Error (exn_str TypeError)\<rparr>"
    by (simp add: three_sentence_chunks three_sentence_chunk_fails summarize_def summarize_try_def)
  show ?thesis
    using h1 h2 h3 h4 h5 h6 s select_raises_type_error [OF h1 h2 h3 h4 h5 h6]
    by blast
qed

end
